theory Spec2Isabelle
  imports
    Complex_Main
    "HOL-Library.Finite_Map"
    "HOL-Library.Multiset"
    "HOL-Library.Char_ord"
    "HOL-Library.List_Lexorder"
    "HOL-Library.Product_Lexorder"
begin

section \<open>The float64 values of the classifier\<close>

text \<open>
  Every number of the classifier is a Go \<open>float64\<close>, an IEEE 754 binary64 value. The
  finite values are kept as real numbers, and every addition, multiplication and division
  rounds its exact result to the nearest binary64 value, ties to the even significand
  (\<open>round64\<close>): a result below the normal range is rounded on the grid of the
  subnormal numbers, and one that rounds to \<open>2 ^ 1024\<close> or more becomes an infinity.
  Go's floating-point division by zero does not panic: it yields an infinity or NaN,
  which then flows through the later operations. The one idealisation is the sign of
  zero: there is a single zero.

  The counts stored in the two tables and the configured weight and probability are finite
  values (a table entry is made by \<open>++\<close> from zero or read from JSON, which has no
  notation for NaN or the infinities), so they are \<open>real\<close>. The counts that training
  produces are whole numbers far below \<open>2 ^ 53\<close>, on which \<open>++\<close> and the sums of
  the range loops are exact; they are computed without rounding.
\<close>

datatype float64 = Fin real | PInf | NInf | NaN

definition inf_signed :: "bool \<Rightarrow> float64" where
  "inf_signed positive = (if positive then PInf else NInf)"

text \<open>
  Scaling a magnitude \<open>m * 2 ^ e\<close> until the significand \<open>m\<close> is below \<open>2 ^ 53\<close>
  and, unless the exponent has reached that of the subnormal numbers, at least
  \<open>2 ^ 52\<close>. The first argument bounds the number of steps; the exponents of binary64
  need fewer than 1100 in each direction.
\<close>

fun scale_down :: "nat \<Rightarrow> real \<Rightarrow> int \<Rightarrow> real \<times> int" where
  "scale_down 0 m e = (m, e)"
| "scale_down (Suc n) m e = (if m < 2 ^ 53 then (m, e) else scale_down n (m / 2) (e + 1))"

fun scale_up :: "nat \<Rightarrow> real \<Rightarrow> int \<Rightarrow> real \<times> int" where
  "scale_up 0 m e = (m, e)"
| "scale_up (Suc n) m e =
     (if 2 ^ 52 \<le> m \<or> e \<le> - 1074 then (m, e) else scale_up n (m * 2) (e - 1))"

text \<open>The nearest integer, a tie going to the even one.\<close>

definition round_even :: "real \<Rightarrow> int" where
  "round_even m =
     (let f = \<lfloor>m\<rfloor>; d = m - of_int f in
      if d < 1 / 2 then f else if 1 / 2 < d then f + 1 else if even f then f else f + 1)"

definition pow2 :: "int \<Rightarrow> real" where
  "pow2 e = (if 0 \<le> e then 2 ^ nat e else 1 / 2 ^ nat (- e))"

definition round64 :: "real \<Rightarrow> float64" where
  "round64 x =
     (if x = 0 then Fin 0
      else case scale_down 1100 \<bar>x\<bar> 0 of (m1, e1) \<Rightarrow>
           case scale_up 1100 m1 e1 of (m, e) \<Rightarrow>
             let r = of_int (round_even m) * pow2 e in
             if 2 ^ 1024 \<le> r then inf_signed (0 < x)
             else Fin (if 0 < x then r else - r))"

fun fadd :: "float64 \<Rightarrow> float64 \<Rightarrow> float64" where
  "fadd (Fin x) (Fin y) = round64 (x + y)"
| "fadd NaN _ = NaN"
| "fadd _ NaN = NaN"
| "fadd PInf NInf = NaN"
| "fadd NInf PInf = NaN"
| "fadd PInf _ = PInf"
| "fadd _ PInf = PInf"
| "fadd NInf _ = NInf"
| "fadd _ NInf = NInf"

fun fmul :: "float64 \<Rightarrow> float64 \<Rightarrow> float64" where
  "fmul (Fin x) (Fin y) = round64 (x * y)"
| "fmul NaN _ = NaN"
| "fmul _ NaN = NaN"
| "fmul (Fin x) PInf = (if x = 0 then NaN else inf_signed (0 < x))"
| "fmul (Fin x) NInf = (if x = 0 then NaN else inf_signed (x < 0))"
| "fmul PInf (Fin y) = (if y = 0 then NaN else inf_signed (0 < y))"
| "fmul NInf (Fin y) = (if y = 0 then NaN else inf_signed (y < 0))"
| "fmul PInf PInf = PInf"
| "fmul PInf NInf = NInf"
| "fmul NInf PInf = NInf"
| "fmul NInf NInf = PInf"

fun fdiv :: "float64 \<Rightarrow> float64 \<Rightarrow> float64" where
  "fdiv (Fin x) (Fin y) =
     (if y = 0 then (if x = 0 then NaN else inf_signed (0 < x)) else round64 (x / y))"
| "fdiv NaN _ = NaN"
| "fdiv _ NaN = NaN"
| "fdiv (Fin x) PInf = Fin 0"
| "fdiv (Fin x) NInf = Fin 0"
| "fdiv PInf (Fin y) = inf_signed (0 \<le> y)"
| "fdiv NInf (Fin y) = inf_signed (y < 0)"
| "fdiv PInf PInf = NaN"
| "fdiv PInf NInf = NaN"
| "fdiv NInf PInf = NaN"
| "fdiv NInf NInf = NaN"

text \<open>Comparison: every comparison with NaN is false.\<close>

fun fle :: "float64 \<Rightarrow> float64 \<Rightarrow> bool" where
  "fle (Fin x) (Fin y) = (x \<le> y)"
| "fle NaN _ = False"
| "fle _ NaN = False"
| "fle NInf _ = True"
| "fle _ PInf = True"
| "fle PInf _ = False"
| "fle _ NInf = False"

definition fmin :: "float64 \<Rightarrow> float64 \<Rightarrow> float64" where
  "fmin a b = (if a = NaN \<or> b = NaN then NaN else if fle a b then a else b)"

definition fmax :: "float64 \<Rightarrow> float64 \<Rightarrow> float64" where
  "fmax a b = (if a = NaN \<or> b = NaN then NaN else if fle a b then b else a)"

section \<open>Strings: the library functions the classifier calls\<close>

text \<open>
  A Go string is a sequence of bytes, here a \<open>string\<close> (a list of 8-bit characters).
  \<open>strings.TrimSpace\<close> removes the leading and trailing white space runes
  (\<open>unicode.IsSpace\<close>); \<open>space_runes\<close> lists their UTF-8 encodings.
\<close>

definition space_runes :: "string list" where
  "space_runes =
    [[CHR 0x09], [CHR 0x0A], [CHR 0x0B], [CHR 0x0C], [CHR 0x0D], [CHR 0x20],
     [CHR 0xC2, CHR 0x85], [CHR 0xC2, CHR 0xA0],
     [CHR 0xE1, CHR 0x9A, CHR 0x80],
     [CHR 0xE2, CHR 0x80, CHR 0x80], [CHR 0xE2, CHR 0x80, CHR 0x81],
     [CHR 0xE2, CHR 0x80, CHR 0x82], [CHR 0xE2, CHR 0x80, CHR 0x83],
     [CHR 0xE2, CHR 0x80, CHR 0x84], [CHR 0xE2, CHR 0x80, CHR 0x85],
     [CHR 0xE2, CHR 0x80, CHR 0x86], [CHR 0xE2, CHR 0x80, CHR 0x87],
     [CHR 0xE2, CHR 0x80, CHR 0x88], [CHR 0xE2, CHR 0x80, CHR 0x89],
     [CHR 0xE2, CHR 0x80, CHR 0x8A],
     [CHR 0xE2, CHR 0x80, CHR 0xA8], [CHR 0xE2, CHR 0x80, CHR 0xA9],
     [CHR 0xE2, CHR 0x80, CHR 0xAF], [CHR 0xE2, CHR 0x81, CHR 0x9F],
     [CHR 0xE3, CHR 0x80, CHR 0x80]]"

definition leading :: "string list \<Rightarrow> string \<Rightarrow> string option" where
  "leading ps s = List.find (\<lambda>p. take (length p) s = p) ps"

function strip :: "string list \<Rightarrow> string \<Rightarrow> string" where
  "strip ps s =
     (if [] \<in> set ps then s
      else case leading ps s of
             None \<Rightarrow> s
           | Some p \<Rightarrow> strip ps (drop (length p) s))"
  by pat_completeness auto
termination
proof (relation "measure (\<lambda>(ps, s). length s)")
  show "wf (measure (\<lambda>(ps, s). length s))" by simp
next
  fix ps :: "string list" and s p :: string
  assume ne: "[] \<notin> set ps" and f: "leading ps s = Some p"
  from f have "p \<in> set ps" and tk: "take (length p) s = p"
    by (auto simp: leading_def find_Some_iff)
  with ne have "p \<noteq> []" by auto
  with tk have "s \<noteq> []" by auto
  with \<open>p \<noteq> []\<close> show "((ps, drop (length p) s), (ps, s)) \<in> measure (\<lambda>(ps, s). length s)"
    by (cases s; cases p) auto
qed

definition TrimSpace :: "string \<Rightarrow> string" where
  "TrimSpace s = rev (strip (map rev space_runes) (rev (strip space_runes s)))"

text \<open>
  \<open>strings.Split(s, "/")\<close>: the substrings between the separators, one more than
  there are separators.
\<close>

fun Split :: "string \<Rightarrow> char \<Rightarrow> string list" where
  "Split [] sep = [[]]"
| "Split (c # cs) sep =
     (if c = sep then [] # Split cs sep
      else (case Split cs sep of
              [] \<Rightarrow> [[c]]
            | p # ps \<Rightarrow> (c # p) # ps))"

text \<open>
  \<open>utf8.RuneCountInString\<close>: \<open>rune_len\<close> is the number of bytes the decoder takes
  for the first rune of a non-empty string; an invalid or short sequence is one rune of
  width 1.
\<close>

definition in_range :: "nat \<Rightarrow> nat \<Rightarrow> char \<Rightarrow> bool" where
  "in_range lo hi c = (lo \<le> (of_char c :: nat) \<and> (of_char c :: nat) \<le> hi)"

definition rune_size :: "char \<Rightarrow> nat" where
  "rune_size c =
     (if in_range 0xC2 0xDF c then 2
      else if in_range 0xE0 0xEF c then 3
      else if in_range 0xF0 0xF4 c then 4
      else 1)"

definition accept_lo :: "char \<Rightarrow> nat" where
  "accept_lo c = (if c = CHR 0xE0 then 0xA0 else if c = CHR 0xF0 then 0x90 else 0x80)"

definition accept_hi :: "char \<Rightarrow> nat" where
  "accept_hi c = (if c = CHR 0xED then 0x9F else if c = CHR 0xF4 then 0x8F else 0xBF)"

definition rune_len :: "string \<Rightarrow> nat" where
  "rune_len s =
     (case s of
        [] \<Rightarrow> 1
      | c # rest \<Rightarrow>
          let size = rune_size c in
          if size = 1 then 1
          else if length s < size then 1
          else if \<not> in_range (accept_lo c) (accept_hi c) (rest ! 0) then 1
          else if size = 2 then 2
          else if \<not> in_range 0x80 0xBF (rest ! 1) then 1
          else if size = 3 then 3
          else if \<not> in_range 0x80 0xBF (rest ! 2) then 1
          else 4)"

function RuneCountInString :: "string \<Rightarrow> nat" where
  "RuneCountInString s =
     (if s = [] then 0 else Suc (RuneCountInString (drop (rune_len s) s)))"
  by pat_completeness auto
termination
proof (relation "measure length")
  show "wf (measure length)" by simp
next
  fix s :: string
  assume "s \<noteq> []"
  moreover have "0 < rune_len s"
    by (simp add: rune_len_def Let_def split: list.splits)
  ultimately show "(drop (rune_len s) s, s) \<in> measure length"
    by simp
qed


section \<open>The tokenizer\<close>

text \<open>
  \<open>strings.Count(s, "")\<close> is the number of runes of \<open>s\<close> plus one.
  \<open>filterWord\<close> drops the tokens that have at most one rune once trimmed.
\<close>

definition CountEmpty :: "string \<Rightarrow> nat" where
  "CountEmpty s = RuneCountInString s + 1"

definition filterWord :: "string list \<Rightarrow> string list" where
  "filterWord ws = filter (\<lambda>w. \<not> CountEmpty (TrimSpace w) \<le> 2) ws"

section \<open>The classifier and its data\<close>

text \<open>
  The two tables are Go maps, finite maps here. The field \<open>segmenter\<close> stands for the
  external word cutter (\<open>CutForSearch\<close> of the jieba library): any function from a
  text to its tokens. The storage engine is not modelled.
\<close>

type_synonym counts = "(string, real) fmap"

record data =
  Categorys :: counts
  Words :: "(string, counts) fmap"

record Classifier =
  segmenter :: "string \<Rightarrow> string list"
  defaultProb :: real
  defaultWeight :: real
  debug :: bool
  data :: data

definition Segment :: "Classifier \<Rightarrow> string \<Rightarrow> string list" where
  "Segment t text = filterWord (segmenter t text)"

text \<open>Reading a Go map at an absent key gives the zero value.\<close>

definition lookup0 :: "counts \<Rightarrow> string \<Rightarrow> real" where
  "lookup0 m k = (case fmlookup m k of None \<Rightarrow> 0 | Some v \<Rightarrow> v)"

definition inner_of :: "(string, counts) fmap \<Rightarrow> string \<Rightarrow> counts" where
  "inner_of ws word = (case fmlookup ws word of None \<Rightarrow> fmempty | Some m \<Rightarrow> m)"

text \<open>\<open>m[k]++\<close>\<close>

definition incr :: "counts \<Rightarrow> string \<Rightarrow> counts" where
  "incr m k = fmupd k (lookup0 m k + 1) m"

text \<open>
  A fresh classifier starts from two empty tables (before any import from storage).
\<close>

definition empty_data :: data where
  "empty_data = \<lparr>Categorys = fmempty, Words = fmempty\<rparr>"

definition NewClassifier :: "(string \<Rightarrow> string list) \<Rightarrow> real \<Rightarrow> real \<Rightarrow> bool \<Rightarrow> Classifier" where
  "NewClassifier seg prob weight dbg =
     \<lparr>segmenter = seg, defaultProb = prob, defaultWeight = weight, debug = dbg,
      data = empty_data\<rparr>"

subsection \<open>Training\<close>

text \<open>
  One pass of the loop over the tokens: \<open>fwords\<close> is the set of tokens already seen in
  this document, \<open>ws\<close> the word table.
\<close>

definition train_step ::
  "string \<Rightarrow> string \<Rightarrow> string set \<times> (string, counts) fmap \<Rightarrow> string set \<times> (string, counts) fmap"
where
  "train_step category word st =
     (case st of (fwords, ws) \<Rightarrow>
        if word \<in> fwords then (fwords, ws)
        else
          let ws' = (if fmlookup ws word = None then fmupd word fmempty ws else ws)
          in (insert word fwords, fmupd word (incr (inner_of ws' word) category) ws'))"

definition train_words ::
  "string \<Rightarrow> string list \<Rightarrow> (string, counts) fmap \<Rightarrow> (string, counts) fmap"
where
  "train_words category words ws = snd (fold (train_step category) words ({}, ws))"

definition Training :: "Classifier \<Rightarrow> string \<Rightarrow> string \<Rightarrow> Classifier" where
  "Training t doc0 category0 =
     (let doc = TrimSpace doc0; category = TrimSpace category0 in
      if doc = [] \<or> category = [] then t
      else
        let words = Segment t doc in
        t\<lparr>data := \<lparr>Categorys = incr (Categorys (data t)) category,
                    Words = train_words category words (Words (data t))\<rparr>\<rparr>)"

definition TrainingwithSlash :: "Classifier \<Rightarrow> string \<Rightarrow> string \<Rightarrow> Classifier" where
  "TrainingwithSlash t doc0 category0 =
     (let doc = TrimSpace doc0; category = TrimSpace category0 in
      if doc = [] \<or> category = [] then t
      else
        let words = Split doc CHR ''/'' in
        t\<lparr>data := \<lparr>Categorys = incr (Categorys (data t)) category,
                    Words = train_words category words (Words (data t))\<rparr>\<rparr>)"

subsection \<open>The probability estimator\<close>

text \<open>
  A \<open>range\<close> over a Go map visits every key once, in an order the language leaves
  open. The loops that only add up counts are modelled over the keys in ascending order
  (\<open>keys_of\<close>); lemma \<open>range_total_any_order\<close> below shows that every other order
  gives the same sum.
\<close>

definition keys_of :: "counts \<Rightarrow> string list" where
  "keys_of m = sorted_list_of_set (fset (fmdom m))"

definition range_total :: "string list \<Rightarrow> counts \<Rightarrow> real" where
  "range_total ks m = fold (\<lambda>k total. total + lookup0 m k) ks 0"

definition wordProb :: "Classifier \<Rightarrow> string \<Rightarrow> string \<Rightarrow> float64" where
  "wordProb t word category =
     (case fmlookup (Words (data t)) word of
        None \<Rightarrow> Fin 0
      | Some inner \<Rightarrow>
          (case fmlookup inner category of
             Some num \<Rightarrow> fdiv (Fin num) (Fin (lookup0 (Categorys (data t)) category))
           | None \<Rightarrow> Fin 0))"

definition wordTotal :: "Classifier \<Rightarrow> string \<Rightarrow> real" where
  "wordTotal t word =
     (let inner = inner_of (Words (data t)) word in range_total (keys_of inner) inner)"

definition wordWeightProb :: "Classifier \<Rightarrow> string \<Rightarrow> string \<Rightarrow> real \<Rightarrow> real \<Rightarrow> float64" where
  "wordWeightProb t word category weight assumedprob =
     (let basicProb = wordProb t word category;
          total = wordTotal t word
      in fdiv (fadd (fmul (Fin weight) (Fin assumedprob)) (fmul (Fin total) basicProb))
              (fadd (Fin weight) (Fin total)))"

definition docProb :: "Classifier \<Rightarrow> string \<Rightarrow> string \<Rightarrow> float64" where
  "docProb t doc category =
     fold (\<lambda>word prob. fmul prob (wordWeightProb t word category (defaultWeight t) (defaultProb t)))
          (Segment t doc) (Fin 1)"

definition categoryNumTotal :: "Classifier \<Rightarrow> real" where
  "categoryNumTotal t = range_total (keys_of (Categorys (data t))) (Categorys (data t))"

subsection \<open>The ranked list of scores\<close>

text \<open>
  The type \<open>Scores\<close> and its methods (\<open>NewScores\<close>, \<open>Append\<close>, \<open>GetSlice\<close>,
  \<open>Top\<close>) are called by the classifier but are not among the source files; the
  definitions of this subsection follow the specification.
\<close>

text \<open>
  Modelled from the spec: the missing type \<open>ScoreItem\<close>, a (label, probability) pair.
\<close>

type_synonym ScoreItem = "string \<times> float64"

text \<open>
  Modelled from the spec: the missing constructor \<open>NewScores\<close>, a ranked list that
  starts empty.
\<close>

definition NewScores :: "ScoreItem list" where
  "NewScores = []"

text \<open>
  Modelled from the spec: the missing method \<open>Append\<close>, which adds one item to the list.
\<close>

definition Append :: "ScoreItem list \<Rightarrow> string \<Rightarrow> float64 \<Rightarrow> ScoreItem list" where
  "Append scores category score = scores @ [(category, score)]"

text \<open>
  Modelled from the spec: the missing method \<open>GetSlice\<close>, which returns the items.
\<close>

definition GetSlice :: "ScoreItem list \<Rightarrow> ScoreItem list" where
  "GetSlice scores = scores"

text \<open>
  Modelled from the spec: the order of the missing method \<open>Top\<close>, descending
  probability. The specification gives the infinities and NaN no place in that order;
  here the positive infinity comes first, the negative one after the finite values, and
  NaN last.
\<close>

fun score_rank :: "float64 \<Rightarrow> nat \<times> real" where
  "score_rank PInf = (0, 0)"
| "score_rank (Fin x) = (1, - x)"
| "score_rank NInf = (2, 0)"
| "score_rank NaN = (3, 0)"

text \<open>
  Modelled from the spec: the sorting key of the missing method \<open>Top\<close>, descending
  probability first and, among equal probabilities, the category name ascending
  (byte-wise, as Go compares strings).
\<close>

definition item_key :: "ScoreItem \<Rightarrow> (nat \<times> real) \<times> string" where
  "item_key item = (score_rank (snd item), fst item)"

text \<open>
  Modelled from the spec: the missing method \<open>Top\<close>, the first \<open>n\<close> items (all of
  them when there are fewer) in the order of \<open>item_key\<close>.
\<close>

definition Top :: "nat \<Rightarrow> ScoreItem list \<Rightarrow> ScoreItem list" where
  "Top n scores = take n (sort_key item_key scores)"

subsection \<open>Scoring a word, categorizing a document\<close>

text \<open>
  \<open>Score\<close> and \<open>Categorize\<close> append one item per key of a map, in the order the
  \<open>range\<close> visits the keys: that order is the first argument \<open>ks\<close>.
\<close>

definition Score :: "string list \<Rightarrow> Classifier \<Rightarrow> string \<Rightarrow> string \<Rightarrow> ScoreItem list" where
  "Score ks t word category =
     (case fmlookup (Words (data t)) word of
        None \<Rightarrow> GetSlice NewScores
      | Some inner \<Rightarrow>
          if category \<noteq> [] then
            Top 10 (Append NewScores category
                      (wordWeightProb t word category (defaultWeight t) (defaultProb t)))
          else
            Top 10 (fold (\<lambda>c scores. Append scores c
                              (wordWeightProb t word c (defaultWeight t) (defaultProb t)))
                         ks NewScores))"

definition Categorize :: "string list \<Rightarrow> Classifier \<Rightarrow> string \<Rightarrow> ScoreItem list" where
  "Categorize ks t doc =
     (let total = categoryNumTotal t in
      Top 10 (fold (\<lambda>cate scores. Append scores cate
                        (fdiv (fmul (docProb t doc cate) (Fin (lookup0 (Categorys (data t)) cate)))
                              (Fin total)))
                   ks NewScores))"

text \<open>\<open>ks\<close> is an order in which a \<open>range\<close> can visit the keys of \<open>m\<close>.\<close>

definition visits :: "string list \<Rightarrow> (string, 'v) fmap \<Rightarrow> bool" where
  "visits ks m = (distinct ks \<and> set ks = fset (fmdom m))"


section \<open>Notions used to state the properties\<close>

text \<open>\<open>count(term, category)\<close>: the recorded count, zero when nothing is recorded.\<close>

definition count_of :: "Classifier \<Rightarrow> string \<Rightarrow> string \<Rightarrow> real" where
  "count_of t word category = lookup0 (inner_of (Words (data t)) word) category"

text \<open>
  What both training operations do once the arguments are trimmed and the tokens known.
\<close>

definition trained :: "Classifier \<Rightarrow> string \<Rightarrow> string list \<Rightarrow> Classifier" where
  "trained t category words =
     t\<lparr>data := \<lparr>Categorys = incr (Categorys (data t)) category,
                 Words = train_words category words (Words (data t))\<rparr>\<rparr>"

text \<open>
  The operations on a model: the two training operations change it, the two queries
  leave it as it is. (Import replaces the model by a stored one and is not among them.)
\<close>

datatype operation =
    OpTraining string string
  | OpTrainingwithSlash string string
  | OpScore "string list" string string
  | OpCategorize "string list" string

fun apply_op :: "Classifier \<Rightarrow> operation \<Rightarrow> Classifier" where
  "apply_op t (OpTraining doc category) = Training t doc category"
| "apply_op t (OpTrainingwithSlash doc category) = TrainingwithSlash t doc category"
| "apply_op t (OpScore ks word category) = t"
| "apply_op t (OpCategorize ks doc) = t"

definition run :: "Classifier \<Rightarrow> operation list \<Rightarrow> Classifier" where
  "run t ops = foldl apply_op t ops"

text \<open>Every inner map of the word table has at least one category.\<close>

definition inner_nonempty :: "data \<Rightarrow> bool" where
  "inner_nonempty d = (\<forall>w \<in> fset (fmdom (Words d)). inner_of (Words d) w \<noteq> fmempty)"

text \<open>\<open>x\<close> lies in the closed interval from \<open>lo\<close> to \<open>hi\<close>.\<close>

definition between :: "float64 \<Rightarrow> float64 \<Rightarrow> float64 \<Rightarrow> bool" where
  "between lo hi x = (fle lo x \<and> fle x hi)"

text \<open>
  The product of a sequence of probabilities, multiplied from left to right starting
  from 1.
\<close>

definition product_of :: "float64 list \<Rightarrow> float64" where
  "product_of xs = foldl fmul (Fin 1) xs"

text \<open>
  The raw conditional probability as the claims word it: 0 for a term never observed,
  otherwise the count of the term under the category divided by the document count of
  the category.
\<close>

definition spec_raw :: "Classifier \<Rightarrow> string \<Rightarrow> string \<Rightarrow> float64" where
  "spec_raw t word category =
     (if word |\<notin>| fmdom (Words (data t)) then Fin 0
      else fdiv (Fin (count_of t word category)) (Fin (lookup0 (Categorys (data t)) category)))"

text \<open>
  The unit roundoff of binary64, and the numbers on which no operation of the weighted
  probability can underflow or overflow: zero and the values from \<open>2 ^ - 250\<close> to
  \<open>2 ^ 250\<close>.
\<close>

definition u64 :: real where
  "u64 = 1 / 2 ^ 53"

definition moderate :: "real \<Rightarrow> bool" where
  "moderate x = (x = 0 \<or> (1 / 2 ^ 250 \<le> x \<and> x \<le> 2 ^ 250))"

text \<open>
  The score of a category as the specification words it: the product, over the tokens
  of the document, of their weighted probabilities under the category, times the
  document count of the category, divided by the sum of all document counts.
\<close>

definition spec_posterior :: "Classifier \<Rightarrow> string \<Rightarrow> string \<Rightarrow> float64" where
  "spec_posterior t doc category =
     fdiv (fmul (product_of
                   (map (\<lambda>word. wordWeightProb t word category (defaultWeight t) (defaultProb t))
                        (Segment t doc)))
                (Fin (lookup0 (Categorys (data t)) category)))
          (Fin (\<Sum>c\<in>fset (fmdom (Categorys (data t))). lookup0 (Categorys (data t)) c))"

text \<open>A list of items in ranking order.\<close>

definition ranked :: "ScoreItem list \<Rightarrow> ScoreItem list" where
  "ranked items = sort_key item_key items"

subsection \<open>Example models\<close>

text \<open>A word cutter that splits at blanks, and models built with it.\<close>

definition cut_spaces :: "string \<Rightarrow> string list" where
  "cut_spaces s = Split s CHR '' ''"

definition fresh :: Classifier where
  "fresh = NewClassifier cut_spaces (1/2) 1 False"

definition trained_once :: Classifier where
  "trained_once = TrainingwithSlash fresh ''a/b/a'' ''x''"

definition two_categories :: Classifier where
  "two_categories = TrainingwithSlash (TrainingwithSlash fresh ''a'' ''y'') ''a'' ''x''"

text \<open>Five documents with the term \<open>a\<close> and six with the term \<open>b\<close>, all under \<open>x\<close>.\<close>

definition five_of_eleven :: Classifier where
  "five_of_eleven =
     run fresh (replicate 5 (OpTrainingwithSlash ''a'' ''x'') @
                replicate 6 (OpTrainingwithSlash ''b'' ''x''))"

text \<open>The binary64 value nearest to \<open>0.1\<close>.\<close>

definition tenth :: real where
  "tenth = 3602879701896397 / 36028797018963968"

definition spam_ham :: Classifier where
  "spam_ham =
     Training (Training fresh ''buy cheap pills'' ''spam'') ''meeting agenda attached'' ''ham''"

section \<open>Rounding to binary64\<close>

subsection \<open>The error of one rounding\<close>

lemma pow2_powi: "pow2 e = 2 powi e"
  by (simp add: pow2_def power_int_def field_simps)

lemma pow2_pos: "0 < pow2 e"
  by (simp add: pow2_powi)

lemma pow2_Suc: "pow2 (e + 1) = 2 * pow2 e"
  by (simp add: pow2_powi power_int_add)

lemma pow2_pred: "pow2 (e - 1) = pow2 e / 2"
  using pow2_Suc [of "e - 1"] by simp

lemma scale_down_inv:
  assumes "scale_down n m e = (m', e')"
  shows "m' * pow2 e' = m * pow2 e \<and> e \<le> e' \<and> (m < 2 ^ 53 * 2 ^ n \<longrightarrow> m' < 2 ^ 53) \<and>
         (e < e' \<or> 2 ^ 52 \<le> m \<longrightarrow> 2 ^ 52 \<le> m')"
  using assms
proof (induction n arbitrary: m e)
  case 0
  then show ?case by simp
next
  case (Suc n)
  show ?case
  proof (cases "m < 2 ^ 53")
    case True
    with Suc.prems show ?thesis by simp
  next
    case False
    with Suc.prems have rec: "scale_down n (m / 2) (e + 1) = (m', e')" by simp
    from Suc.IH [OF rec] False show ?thesis
      by (auto simp: pow2_Suc)
  qed
qed

lemma scale_up_inv:
  assumes "scale_up n m e = (m', e')" and "- 1074 \<le> e"
  shows "m' * pow2 e' = m * pow2 e \<and> - 1074 \<le> e' \<and> (m < 2 ^ 53 \<longrightarrow> m' < 2 ^ 53) \<and>
         (2 ^ 52 \<le> m \<or> e + 1074 \<le> int n \<longrightarrow> 2 ^ 52 \<le> m' \<or> e' = - 1074)"
  using assms
proof (induction n arbitrary: m e)
  case 0
  then show ?case by auto
next
  case (Suc n)
  show ?case
  proof (cases "2 ^ 52 \<le> m \<or> e \<le> - 1074")
    case True
    with Suc.prems show ?thesis by auto
  next
    case False
    with Suc.prems have rec: "scale_up n (m * 2) (e - 1) = (m', e')" by simp
    from False Suc.prems have "- 1074 \<le> e - 1" by simp
    from Suc.IH [OF rec this] False show ?thesis
      by (auto simp: pow2_pred)
  qed
qed

lemma round_even_near: "\<bar>of_int (round_even m) - m\<bar> \<le> 1 / 2"
  unfolding round_even_def Let_def
  by (auto simp: abs_if not_less) linarith+

lemma round64_normal:
  assumes lo: "1 / 2 ^ 1022 \<le> \<bar>x\<bar>" and hi: "\<bar>x\<bar> \<le> 2 ^ 1023"
  shows "\<exists>y. round64 x = Fin y \<and> \<bar>y - x\<bar> \<le> u64 * \<bar>x\<bar>"
proof -
  have x0: "x \<noteq> 0" using lo by auto
  obtain m1 e1 where s1: "scale_down 1100 \<bar>x\<bar> 0 = (m1, e1)" by fastforce
  obtain m e where s2: "scale_up 1100 m1 e1 = (m, e)" by fastforce
  have "\<bar>x\<bar> < 2 ^ 53 * 2 ^ 1100"
  proof -
    have "(2::real) ^ 1023 < 2 ^ 53 * 2 ^ 1100" by simp
    with hi show ?thesis by linarith
  qed
  moreover have "pow2 0 = 1" by (simp add: pow2_def)
  ultimately
  have a1: "m1 * pow2 e1 = \<bar>x\<bar>" "0 \<le> e1" "m1 < 2 ^ 53" "0 < e1 \<longrightarrow> 2 ^ 52 \<le> m1"
    using scale_down_inv [OF s1] by simp_all
  have pre: "2 ^ 52 \<le> m1 \<or> e1 + 1074 \<le> int 1100"
    using a1(2,4) by (cases "e1 = 0") auto
  have "- 1074 \<le> e1" using a1(2) by simp
  from scale_up_inv [OF s2 this] a1 pre
  have a2: "m * pow2 e = \<bar>x\<bar>" "- 1074 \<le> e" "m < 2 ^ 53" "2 ^ 52 \<le> m \<or> e = - 1074"
    by auto
  have m52: "2 ^ 52 \<le> m"
  proof (rule ccontr)
    assume n: "\<not> 2 ^ 52 \<le> m"
    with a2(4) have e: "e = - 1074" by simp
    have "pow2 e = 1 / 2 ^ 1074" by (simp add: e pow2_def)
    with a2(1) have "\<bar>x\<bar> = m / 2 ^ 1074" by simp
    also have "\<dots> < 2 ^ 52 / 2 ^ 1074" using n by (simp add: divide_strict_right_mono)
    also have "\<dots> = 1 / 2 ^ 1022" by simp
    finally show False using lo by simp
  qed
  define q where "q = round_even m"
  define r where "r = of_int q * pow2 e"
  have qm: "\<bar>of_int q - m\<bar> \<le> 1 / 2" unfolding q_def by (rule round_even_near)
  have "\<bar>r - \<bar>x\<bar>\<bar> = \<bar>of_int q - m\<bar> * pow2 e"
    using pow2_pos [of e]
    by (simp add: r_def a2(1) [symmetric] left_diff_distrib [symmetric] abs_mult)
  also have "\<dots> \<le> (1 / 2) * pow2 e"
    using qm pow2_pos [of e] by (simp add: mult_right_mono)
  also have "\<dots> \<le> u64 * \<bar>x\<bar>"
  proof -
    have "2 ^ 52 * pow2 e \<le> m * pow2 e"
      using m52 pow2_pos [of e] by (simp add: mult_right_mono)
    then have "2 ^ 52 * pow2 e \<le> \<bar>x\<bar>" by (simp add: a2(1))
    then show ?thesis by (simp add: u64_def)
  qed
  finally have err: "\<bar>r - \<bar>x\<bar>\<bar> \<le> u64 * \<bar>x\<bar>" .
  have "r \<le> \<bar>x\<bar> + u64 * \<bar>x\<bar>" using err by linarith
  also have "\<dots> < 2 * \<bar>x\<bar>" using x0 by (simp add: u64_def)
  also have "\<dots> \<le> 2 * 2 ^ 1023" using hi by simp
  finally have nov: "\<not> 2 ^ 1024 \<le> r" by simp
  have val: "round64 x = Fin (if 0 < x then r else - r)"
    using x0 nov by (simp add: round64_def s1 s2 Let_def r_def q_def)
  have "\<bar>(if 0 < x then r else - r) - x\<bar> = \<bar>r - \<bar>x\<bar>\<bar>"
    using x0 by (auto simp: abs_if)
  with err val show ?thesis by auto
qed

lemma round64_approx:
  assumes "x = 0 \<or> (1 / 2 ^ 1000 \<le> x \<and> x \<le> 2 ^ 1000)"
  obtains y where "round64 x = Fin y" "(1 - u64) * x \<le> y" "y \<le> (1 + u64) * x"
    "x / 2 \<le> y" "y \<le> 2 * x"
proof (cases "x = 0")
  case True
  then have "round64 x = Fin 0" by (simp add: round64_def)
  with True that [of 0] show ?thesis by simp
next
  case False
  with assms have r: "1 / 2 ^ 1000 \<le> x" "x \<le> 2 ^ 1000" by auto
  have "(1::real) / 2 ^ 1022 \<le> 1 / 2 ^ 1000" "(2::real) ^ 1000 \<le> 2 ^ 1023" by simp_all
  with r have "1 / 2 ^ 1022 \<le> x" "x \<le> 2 ^ 1023" by linarith+
  moreover have x: "0 < x"
  proof -
    have "(0::real) < 1 / 2 ^ 1000" by simp
    with r(1) show ?thesis by linarith
  qed
  ultimately obtain y where y: "round64 x = Fin y" "\<bar>y - x\<bar> \<le> u64 * \<bar>x\<bar>"
    using round64_normal [of x] by auto
  from y(2) x have b: "(1 - u64) * x \<le> y" "y \<le> (1 + u64) * x"
    by (simp_all add: abs_le_iff algebra_simps)
  have b': "x - u64 * x \<le> y" "y \<le> x + u64 * x"
    using b by (simp_all add: algebra_simps)
  have h: "u64 * x \<le> x / 2" using x by (simp add: u64_def)
  from b' h x have "x / 2 \<le> y" "y \<le> 2 * x" by linarith+
  with y(1) b that show ?thesis by blast
qed


subsection \<open>The error of the weighted average\<close>

lemma range_widen:
  fixes x :: real
  assumes "x = 0 \<or> (lo \<le> x \<and> x \<le> hi)" and "lo' \<le> lo" and "hi \<le> hi'"
  shows "x = 0 \<or> (lo' \<le> x \<and> x \<le> hi')"
  using assms by auto

lemma range_scaled:
  fixes x S :: real
  assumes "S = 0 \<or> (lo \<le> S \<and> S \<le> hi)" and "S / k \<le> x" and "x \<le> k * S" and "0 < k"
  shows "x = 0 \<or> (lo / k \<le> x \<and> x \<le> k * hi)"
proof (cases "S = 0")
  case True
  with assms(2,3) show ?thesis by simp
next
  case False
  with assms(1) have "lo \<le> S" "S \<le> hi" by auto
  then have "lo / k \<le> S / k" "k * S \<le> k * hi"
    using assms(4) by (simp_all add: divide_right_mono)
  with assms(2,3) show ?thesis by linarith
qed

lemma range_sum:
  fixes w T :: real
  assumes "w = 0 \<or> (lo \<le> w \<and> w \<le> hi)" and "T = 0 \<or> (lo \<le> T \<and> T \<le> hi)"
    and "0 < w + T" and "0 < lo" and "lo \<le> hi"
  shows "lo \<le> w + T \<and> w + T \<le> 2 * hi"
  using assms by auto

lemma moderate_nonneg: "moderate x \<Longrightarrow> 0 \<le> x"
proof -
  assume "moderate x"
  moreover have "(0::real) \<le> 1 / 2 ^ 250" by simp
  ultimately show ?thesis unfolding moderate_def by linarith
qed

lemma moderate_product:
  assumes "moderate x" and "moderate y"
  shows "x * y = 0 \<or> (1 / 2 ^ 500 \<le> x * y \<and> x * y \<le> 2 ^ 500)"
proof (cases "x = 0 \<or> y = 0")
  case True
  then show ?thesis by auto
next
  case False
  with assms have x: "1 / 2 ^ 250 \<le> x" "x \<le> 2 ^ 250" and y: "1 / 2 ^ 250 \<le> y" "y \<le> 2 ^ 250"
    by (auto simp: moderate_def)
  have "(1 / 2 ^ 250) * (1 / 2 ^ 250) \<le> x * y"
    using x(1) y(1) by (intro mult_mono) simp_all
  moreover have "x * y \<le> 2 ^ 250 * 2 ^ 250"
    using x y moderate_nonneg [OF assms(1)] moderate_nonneg [OF assms(2)]
    by (intro mult_mono) simp_all
  ultimately show ?thesis by simp
qed

lemma slack_upper: "(1 + u64) * ((1 + u64) * (1 + u64)) \<le> (1 + 1 / 2 ^ 50) * (1 - u64)"
  by (simp add: u64_def)

lemma slack_lower: "(1 - 1 / 2 ^ 50) * (1 + u64) \<le> (1 - u64) * ((1 - u64) * (1 - u64))"
  by (simp add: u64_def)

lemma weighted_approx:
  assumes mw: "moderate w" and ma: "moderate a" and mT: "moderate T" and mb: "moderate b"
    and pos: "0 < w + T"
  shows "\<exists>r. fdiv (fadd (fmul (Fin w) (Fin a)) (fmul (Fin T) (Fin b))) (fadd (Fin w) (Fin T)) = Fin r \<and>
             (1 - 1 / 2 ^ 50) * ((w * a + T * b) / (w + T)) \<le> r \<and>
             r \<le> (1 + 1 / 2 ^ 50) * ((w * a + T * b) / (w + T))"
proof -
  note nn = moderate_nonneg [OF mw] moderate_nonneg [OF ma] moderate_nonneg [OF mT]
    moderate_nonneg [OF mb]
  have u: "0 < u64" "u64 < 1" by (simp_all add: u64_def)
  define S where "S = w * a + T * b"
  define D where "D = w + T"
  have wa0: "0 \<le> w * a" and Tb0: "0 \<le> T * b" using nn by simp_all
  then have S0: "0 \<le> S" by (simp add: S_def)
  \<comment> \<open>the two products\<close>
  have rw: "w * a = 0 \<or> (1 / 2 ^ 1000 \<le> w * a \<and> w * a \<le> 2 ^ 1000)"
    using moderate_product [OF mw ma] by auto
  have rT: "T * b = 0 \<or> (1 / 2 ^ 1000 \<le> T * b \<and> T * b \<le> 2 ^ 1000)"
    using moderate_product [OF mT mb] by auto
  obtain p where p: "round64 (w * a) = Fin p" "(1 - u64) * (w * a) \<le> p" "p \<le> (1 + u64) * (w * a)"
    "w * a / 2 \<le> p" "p \<le> 2 * (w * a)"
    using round64_approx [OF rw] by blast
  obtain q where q: "round64 (T * b) = Fin q" "(1 - u64) * (T * b) \<le> q" "q \<le> (1 + u64) * (T * b)"
    "T * b / 2 \<le> q" "q \<le> 2 * (T * b)"
    using round64_approx [OF rT] by blast
  \<comment> \<open>their sum\<close>
  have pq: "(1 - u64) * S \<le> p + q" "p + q \<le> (1 + u64) * S" "S / 2 \<le> p + q" "p + q \<le> 2 * S"
    "(0::real) < 2"
    using p q by (simp_all add: S_def algebra_simps)
  have Sr: "S = 0 \<or> (1 / 2 ^ 500 \<le> S \<and> S \<le> 2 ^ 501)"
    using moderate_product [OF mw ma] moderate_product [OF mT mb] wa0 Tb0
    unfolding S_def by auto
  have rs: "p + q = 0 \<or> (1 / 2 ^ 1000 \<le> p + q \<and> p + q \<le> 2 ^ 1000)"
    by (rule range_widen [OF range_scaled [OF Sr pq(3,4)]]) simp_all
  obtain n where n: "round64 (p + q) = Fin n" "(1 - u64) * (p + q) \<le> n" "n \<le> (1 + u64) * (p + q)"
    "(p + q) / 2 \<le> n" "n \<le> 2 * (p + q)"
    using round64_approx [OF rs] by blast
  have nS: "(1 - u64) * ((1 - u64) * S) \<le> n" "n \<le> (1 + u64) * ((1 + u64) * S)"
  proof -
    have "(1 - u64) * ((1 - u64) * S) \<le> (1 - u64) * (p + q)"
      using pq(1) u by (intro mult_left_mono) simp_all
    with n(2) show "(1 - u64) * ((1 - u64) * S) \<le> n" by linarith
    have "(1 + u64) * (p + q) \<le> (1 + u64) * ((1 + u64) * S)"
      using pq(2) u by (intro mult_left_mono) simp_all
    with n(3) show "n \<le> (1 + u64) * ((1 + u64) * S)" by linarith
  qed
  have n4: "S / 4 \<le> n" "n \<le> 4 * S" "(0::real) < 4" using n(4,5) pq(3,4) by simp_all
  \<comment> \<open>the denominator\<close>
  have Dr: "D = 0 \<or> (1 / 2 ^ 250 \<le> D \<and> D \<le> 2 * 2 ^ 250)"
    unfolding D_def
    by (rule disjI2, rule range_sum [OF mw [unfolded moderate_def] mT [unfolded moderate_def] pos])
       simp_all
  have rd: "D = 0 \<or> (1 / 2 ^ 1000 \<le> D \<and> D \<le> 2 ^ 1000)"
    by (rule range_widen [OF Dr]) simp_all
  obtain d where d: "round64 D = Fin d" "(1 - u64) * D \<le> d" "d \<le> (1 + u64) * D"
    "D / 2 \<le> d" "d \<le> 2 * D"
    using round64_approx [OF rd] by blast
  have two: "(0::real) < 2" by simp
  have D0: "0 < D" using pos by (simp add: D_def)
  then have d0: "0 < d" using d(4) by linarith
  \<comment> \<open>the quotient\<close>
  have n0: "0 \<le> n" using n4(1) S0 by linarith
  have nr: "n = 0 \<or> (1 / 2 ^ 500 / 4 \<le> n \<and> n \<le> 4 * 2 ^ 501)"
    by (rule range_scaled [OF Sr n4])
  have dr: "d = 0 \<or> (1 / 2 ^ 250 / 2 \<le> d \<and> d \<le> 2 * (2 * 2 ^ 250))"
    by (rule range_scaled [OF Dr d(4,5) two])
  have rq: "n / d = 0 \<or> (1 / 2 ^ 1000 \<le> n / d \<and> n / d \<le> 2 ^ 1000)"
  proof (cases "n = 0")
    case True
    then show ?thesis by simp
  next
    case False
    with nr have nb: "1 / 2 ^ 500 / 4 \<le> n" "n \<le> 4 * 2 ^ 501" by auto
    from dr d0 have db: "1 / 2 ^ 250 / 2 \<le> d" "d \<le> 2 * (2 * 2 ^ 250)" by auto
    have "(1 / 2 ^ 500 / 4) / (2 * (2 * 2 ^ 250)) \<le> n / d"
      using nb(1) db(2) d0 by (intro frac_le) simp_all
    moreover have "n / d \<le> (4 * 2 ^ 501) / (1 / 2 ^ 250 / 2)"
      using nb(2) db(1) n0 by (intro frac_le) simp_all
    moreover have "(1::real) / 2 ^ 1000 \<le> (1 / 2 ^ 500 / 4) / (2 * (2 * 2 ^ 250))"
      "((4::real) * 2 ^ 501) / (1 / 2 ^ 250 / 2) \<le> 2 ^ 1000" by simp_all
    ultimately show ?thesis by (meson order_trans)
  qed
  obtain r where r: "round64 (n / d) = Fin r" "(1 - u64) * (n / d) \<le> r" "r \<le> (1 + u64) * (n / d)"
    using round64_approx [OF rq] by blast
  have val: "fdiv (fadd (fmul (Fin w) (Fin a)) (fmul (Fin T) (Fin b))) (fadd (Fin w) (Fin T)) = Fin r"
    using d0 by (simp add: p q n d r D_def [symmetric])
  \<comment> \<open>the error of the whole\<close>
  have up: "r \<le> (1 + 1 / 2 ^ 50) * (S / D)"
  proof -
    have "0 < (1 - u64) * D" "0 \<le> (1 + u64) * ((1 + u64) * S)" using D0 S0 u by simp_all
    from frac_le [OF this(2) nS(2) this(1) d(2)]
    have "n / d \<le> ((1 + u64) * ((1 + u64) * S)) / ((1 - u64) * D)" .
    then have "(1 + u64) * (n / d) \<le> (1 + u64) * (((1 + u64) * ((1 + u64) * S)) / ((1 - u64) * D))"
      using u by (intro mult_left_mono) simp_all
    also have "\<dots> = ((1 + u64) * ((1 + u64) * (1 + u64))) / (1 - u64) * (S / D)"
      by simp
    also have "\<dots> \<le> (1 + 1 / 2 ^ 50) * (S / D)"
    proof (intro mult_right_mono)
      show "(1 + u64) * ((1 + u64) * (1 + u64)) / (1 - u64) \<le> 1 + 1 / 2 ^ 50"
        using slack_upper u by (simp add: pos_divide_le_eq)
      show "0 \<le> S / D" using S0 D0 by simp
    qed
    finally show ?thesis using r(3) by linarith
  qed
  have low: "(1 - 1 / 2 ^ 50) * (S / D) \<le> r"
  proof -
    have "(1 - 1 / 2 ^ 50) * (S / D) \<le> ((1 - u64) * ((1 - u64) * (1 - u64))) / (1 + u64) * (S / D)"
    proof (intro mult_right_mono)
      show "1 - 1 / 2 ^ 50 \<le> (1 - u64) * ((1 - u64) * (1 - u64)) / (1 + u64)"
        using slack_lower u by (simp add: pos_le_divide_eq)
      show "0 \<le> S / D" using S0 D0 by simp
    qed
    also have "\<dots> = (1 - u64) * (((1 - u64) * ((1 - u64) * S)) / ((1 + u64) * D))"
      by simp
    also have "\<dots> \<le> (1 - u64) * (n / d)"
    proof (intro mult_left_mono)
      from frac_le [OF n0 nS(1) d0 d(3)]
      show "(1 - u64) * ((1 - u64) * S) / ((1 + u64) * D) \<le> n / d" .
      show "0 \<le> 1 - u64" using u by simp
    qed
    finally show ?thesis using r(2) by linarith
  qed
  from val up low show ?thesis by (auto simp: S_def D_def)
qed

subsection \<open>Evaluating a rounding\<close>

lemma scale_down_numeral:
  "scale_down (numeral k) m e =
     (if m < 2 ^ 53 then (m, e) else scale_down (pred_numeral k) (m / 2) (e + 1))"
  by (simp add: numeral_eq_Suc)

lemma scale_up_numeral:
  "scale_up (numeral k) m e =
     (if 2 ^ 52 \<le> m \<or> e \<le> - 1074 then (m, e)
      else scale_up (pred_numeral k) (m * 2) (e - 1))"
  by (simp add: numeral_eq_Suc)

lemmas float_eval =
  round64_def scale_down_numeral scale_up_numeral round_even_def pow2_def Let_def
  inf_signed_def

section \<open>Training\<close>

subsection \<open>The loop over the tokens\<close>

lemma train_fold_lookup:
  "fmlookup (snd (fold (train_step c) words (fw, ws))) w =
     (if w \<in> set words \<and> w \<notin> fw then Some (incr (inner_of ws w) c) else fmlookup ws w)"
proof (induction words arbitrary: fw ws)
  case Nil
  then show ?case by simp
next
  case (Cons x xs)
  show ?case
  proof (cases "x \<in> fw")
    case True
    then show ?thesis using Cons.IH [of fw ws] by (auto simp: train_step_def)
  next
    case False
    define ws' where "ws' = (if fmlookup ws x = None then fmupd x fmempty ws else ws)"
    define ws'' where "ws'' = fmupd x (incr (inner_of ws' x) c) ws'"
    have step: "train_step c x (fw, ws) = (insert x fw, ws'')"
      using False by (simp add: train_step_def Let_def ws'_def ws''_def)
    have same: "inner_of ws' x = inner_of ws x"
      by (auto simp: ws'_def inner_of_def)
    have other: "v \<noteq> x \<Longrightarrow> fmlookup ws'' v = fmlookup ws v" for v
      by (simp add: ws''_def ws'_def)
    have at_x: "fmlookup ws'' x = Some (incr (inner_of ws x) c)"
      by (simp add: ws''_def same)
    show ?thesis
    proof (cases "w = x")
      case True
      then show ?thesis
        using Cons.IH [of "insert x fw" ws''] False at_x by (simp add: step)
    next
      case w: False
      have "inner_of ws'' w = inner_of ws w"
        using w other [of w] by (simp add: inner_of_def)
      then show ?thesis
        using Cons.IH [of "insert x fw" ws''] w other [of w] by (simp add: step)
    qed
  qed
qed

lemma train_words_lookup:
  "fmlookup (train_words c words ws) w =
     (if w \<in> set words then Some (incr (inner_of ws w) c) else fmlookup ws w)"
  by (simp add: train_words_def train_fold_lookup)

lemma lookup0_incr: "lookup0 (incr m k) k' = (if k' = k then lookup0 m k + 1 else lookup0 m k')"
  by (simp add: incr_def lookup0_def)

lemma fmlookup_incr:
  "fmlookup (incr m k) k' = (if k' = k then Some (lookup0 m k + 1) else fmlookup m k')"
  by (simp add: incr_def)

lemma inner_of_train_words:
  "inner_of (train_words c words ws) w =
     (if w \<in> set words then incr (inner_of ws w) c else inner_of ws w)"
  by (simp add: inner_of_def train_words_lookup)

lemma Training_eq:
  "Training t doc category =
     (if TrimSpace doc = [] \<or> TrimSpace category = [] then t
      else trained t (TrimSpace category) (Segment t (TrimSpace doc)))"
  by (simp add: Training_def trained_def Let_def)

lemma TrainingwithSlash_eq:
  "TrainingwithSlash t doc category =
     (if TrimSpace doc = [] \<or> TrimSpace category = [] then t
      else trained t (TrimSpace category) (Split (TrimSpace doc) CHR ''/''))"
  by (simp add: TrainingwithSlash_def trained_def Let_def)

lemma trained_counts:
  "fmlookup (Words (data (trained t c ws))) w =
     (if w \<in> set ws then Some (incr (inner_of (Words (data t)) w) c)
      else fmlookup (Words (data t)) w)"
  "Categorys (data (trained t c ws)) = incr (Categorys (data t)) c"
  by (simp_all add: trained_def train_words_lookup)

lemma trained_count:
  "count_of (trained t c ws) w c' =
     (if w \<in> set ws \<and> c' = c then count_of t w c + 1 else count_of t w c')"
  by (simp add: count_of_def trained_def inner_of_train_words lookup0_incr)

lemma trained_present:
  "w \<in> set ws \<Longrightarrow>
   fmlookup (inner_of (Words (data (trained t c ws))) w) c = Some (count_of t w c + 1)"
  by (simp add: count_of_def trained_def inner_of_train_words fmlookup_incr)

subsection \<open>Each distinct term is counted once\<close>

text \<open>
  Claim C3. When the document and the category are not empty once trimmed, one call of
  \<open>Training\<close>, and likewise one call of \<open>TrainingwithSlash\<close>, adds exactly 1 to the
  count of every term of the document under the (trimmed) category, however often the
  term occurs among the tokens, and the term is then recorded under that category; the
  counts of the same terms under other categories and every entry of a term that is not
  in the document stay as they were; the document count of the category grows by exactly
  1 and the other document counts stay as they were.
\<close>

theorem Training_counts_once:
  assumes "TrimSpace doc \<noteq> []" and "TrimSpace category \<noteq> []"
  defines "c \<equiv> TrimSpace category"
  shows "(let t' = Training t doc category; ws = Segment t (TrimSpace doc) in
           (\<forall>w c'. count_of t' w c' =
                     (if w \<in> set ws \<and> c' = c then count_of t w c + 1 else count_of t w c')) \<and>
           (\<forall>w. w \<in> set ws \<longrightarrow>
                  fmlookup (inner_of (Words (data t')) w) c = Some (count_of t w c + 1)) \<and>
           (\<forall>w. w \<notin> set ws \<longrightarrow> fmlookup (Words (data t')) w = fmlookup (Words (data t)) w) \<and>
           (\<forall>c'. lookup0 (Categorys (data t')) c' =
                   (if c' = c then lookup0 (Categorys (data t)) c + 1
                    else lookup0 (Categorys (data t)) c'))) \<and>
         (let t' = TrainingwithSlash t doc category; ws = Split (TrimSpace doc) CHR ''/'' in
           (\<forall>w c'. count_of t' w c' =
                     (if w \<in> set ws \<and> c' = c then count_of t w c + 1 else count_of t w c')) \<and>
           (\<forall>w. w \<in> set ws \<longrightarrow>
                  fmlookup (inner_of (Words (data t')) w) c = Some (count_of t w c + 1)) \<and>
           (\<forall>w. w \<notin> set ws \<longrightarrow> fmlookup (Words (data t')) w = fmlookup (Words (data t)) w) \<and>
           (\<forall>c'. lookup0 (Categorys (data t')) c' =
                   (if c' = c then lookup0 (Categorys (data t)) c + 1
                    else lookup0 (Categorys (data t)) c')))"
  using assms
  by (simp add: Training_eq TrainingwithSlash_eq Let_def trained_count trained_present
      trained_counts lookup0_incr)

lemma trim_abc: "TrimSpace ''a/b/a'' = ''a/b/a''"
  by code_simp

lemma trim_x: "TrimSpace ''x'' = ''x''"
  by code_simp

lemma split_aba: "Split ''a/b/a'' CHR ''/'' = [''a'', ''b'', ''a'']"
  by code_simp

text \<open>
  The scenario of the specification: training \<open>a/b/a\<close> under \<open>x\<close> on a fresh model
  records \<open>a\<close> with count 1 and \<open>b\<close> with count 1.
\<close>

theorem Training_counts_once_witness:
  "TrimSpace ''a/b/a'' \<noteq> [] \<and> TrimSpace ''x'' \<noteq> [] \<and>
   count_of (TrainingwithSlash fresh ''a/b/a'' ''x'') ''a'' ''x'' = 1 \<and>
   count_of (TrainingwithSlash fresh ''a/b/a'' ''x'') ''b'' ''x'' = 1 \<and>
   lookup0 (Categorys (data (TrainingwithSlash fresh ''a/b/a'' ''x''))) ''x'' = 1"
proof -
  have a: "TrimSpace ''a/b/a'' \<noteq> []" and b: "TrimSpace ''x'' \<noteq> []"
    by (simp_all add: trim_abc trim_x)
  have z: "count_of fresh w c = 0" "lookup0 (Categorys (data fresh)) c = 0" for w c
    by (simp_all add: count_of_def fresh_def NewClassifier_def empty_data_def inner_of_def
        lookup0_def)
  show ?thesis
    using Training_counts_once [OF a b, of fresh] a b
    by (simp add: Let_def trim_abc trim_x split_aba z)
qed

subsection \<open>Empty input\<close>

text \<open>
  Claim C8. When the document is empty once trimmed, or the category is, \<open>Training\<close>
  and \<open>TrainingwithSlash\<close> return the classifier they were given: both tables are
  unchanged and nothing fails.
\<close>

theorem Training_empty_noop:
  assumes "TrimSpace doc = [] \<or> TrimSpace category = []"
  shows "Training t doc category = t \<and> TrainingwithSlash t doc category = t"
  using assms by (auto simp: Training_def TrainingwithSlash_def Let_def)

lemma trim_blanks: "TrimSpace ''  '' = []"
  by code_simp

theorem Training_empty_noop_witness:
  "TrimSpace ''  '' = [] \<and> Training trained_once ''  '' ''x'' = trained_once \<and>
   TrainingwithSlash trained_once ''  '' ''x'' = trained_once"
  using Training_empty_noop [of "''  ''" "''x''" trained_once] by (simp add: trim_blanks)

subsection \<open>Inner maps are never empty\<close>

lemma inner_nonempty_trained:
  assumes "inner_nonempty (data t)"
  shows "inner_nonempty (data (trained t c ws))"
  unfolding inner_nonempty_def
proof
  fix w
  assume dom: "w \<in> fset (fmdom (Words (data (trained t c ws))))"
  show "inner_of (Words (data (trained t c ws))) w \<noteq> fmempty"
  proof (cases "w \<in> set ws")
    case True
    have "fmlookup (inner_of (Words (data (trained t c ws))) w) c \<noteq> None"
      using trained_present [OF True, of t c] by simp
    then show ?thesis by auto
  next
    case False
    then have same: "fmlookup (Words (data (trained t c ws))) w = fmlookup (Words (data t)) w"
      by (simp add: trained_counts)
    then have "w \<in> fset (fmdom (Words (data t)))"
      using dom by (simp add: fmlookup_dom_iff)
    with assms have "inner_of (Words (data t)) w \<noteq> fmempty"
      by (simp add: inner_nonempty_def)
    with same show ?thesis by (simp add: inner_of_def)
  qed
qed

lemma inner_nonempty_apply_op:
  "inner_nonempty (data t) \<Longrightarrow> inner_nonempty (data (apply_op t op))"
  by (cases op) (simp_all add: Training_eq TrainingwithSlash_eq inner_nonempty_trained)

lemma inner_nonempty_foldl:
  "inner_nonempty (data t) \<Longrightarrow> inner_nonempty (data (foldl apply_op t ops))"
  by (induction ops arbitrary: t) (simp_all add: inner_nonempty_apply_op)

text \<open>
  Claim C9. Every operation keeps the invariant that each inner map of the word table
  has at least one category, and the invariant holds after any sequence of operations
  on a model created empty: a term is a key of the table only with a category recorded
  for it.
\<close>

theorem inner_maps_nonempty:
  "(inner_nonempty (data t) \<longrightarrow> inner_nonempty (data (apply_op t op))) \<and>
   inner_nonempty (data (run (NewClassifier seg prob weight dbg) ops))"
proof -
  have "inner_nonempty (data (NewClassifier seg prob weight dbg))"
    by (simp add: inner_nonempty_def NewClassifier_def empty_data_def)
  then show ?thesis
    by (simp add: run_def inner_nonempty_foldl inner_nonempty_apply_op)
qed

lemma dom_after_aba:
  "fmdom (Words (data (run fresh [OpTrainingwithSlash ''a/b/a'' ''x'']))) = {|''a'', ''b''|}"
  by code_simp

theorem inner_maps_nonempty_witness:
  "''a'' \<in> fset (fmdom (Words (data (run fresh [OpTrainingwithSlash ''a/b/a'' ''x''])))) \<and>
   inner_of (Words (data (run fresh [OpTrainingwithSlash ''a/b/a'' ''x'']))) ''a'' \<noteq> fmempty"
  using inner_maps_nonempty [of fresh "OpScore [] [] []" cut_spaces "1/2" 1 False
      "[OpTrainingwithSlash ''a/b/a'' ''x'']"]
  by (simp add: inner_nonempty_def fresh_def dom_after_aba [unfolded fresh_def])

subsection \<open>The empty string as a term\<close>

text \<open>
  Claim C10. \<open>TrainingwithSlash\<close> keeps the empty tokens that \<open>Split\<close> produces:
  training \<open>a//b\<close> under \<open>x\<close> on a model created empty records the empty string as a
  term, with count 1 under \<open>x\<close>.
\<close>

theorem slash_records_empty_term:
  "fmlookup (Words (data (TrainingwithSlash (NewClassifier seg prob weight dbg) ''a//b'' ''x''))) []
     = Some (fmupd ''x'' 1 fmempty)"
proof -
  have "TrimSpace ''a//b'' = ''a//b''" by code_simp
  moreover have "Split ''a//b'' CHR ''/'' = [''a'', [], ''b'']" by code_simp
  ultimately show ?thesis
    by (simp add: TrainingwithSlash_eq trim_x trained_counts NewClassifier_def empty_data_def
        inner_of_def incr_def lookup0_def)
qed

section \<open>The probability estimator\<close>

subsection \<open>Adding up counts in any order\<close>

lemma fold_total: "fold (\<lambda>k total. total + f k) ks (a::real) = a + sum_list (map f ks)"
  by (induction ks arbitrary: a) (simp_all add: algebra_simps)

lemma range_total_any_order:
  assumes "visits ks m"
  shows "range_total ks m = (\<Sum>k\<in>fset (fmdom m). lookup0 m k)"
proof -
  have "range_total ks m = sum_list (map (lookup0 m) ks)"
    by (simp add: range_total_def fold_total)
  also have "\<dots> = sum (lookup0 m) (set ks)"
    using assms by (simp add: visits_def sum_list_distinct_conv_sum_set)
  finally show ?thesis using assms by (simp add: visits_def)
qed

lemma visits_keys_of: "visits (keys_of m) m"
  by (simp add: visits_def keys_of_def)

lemma wordTotal_sum:
  "wordTotal t word = (\<Sum>c\<in>fset (fmdom (inner_of (Words (data t)) word)). count_of t word c)"
  by (simp add: wordTotal_def Let_def range_total_any_order [OF visits_keys_of] count_of_def)

lemma wordTotal_unseen:
  "fmlookup (Words (data t)) word = None \<Longrightarrow> wordTotal t word = 0"
  by (simp add: wordTotal_sum inner_of_def)

subsection \<open>The weighted probability\<close>

text \<open>
  The claim reads: the result is \<open>(w * a + total * basic) / (w + total)\<close> with
  \<open>basic\<close> the count of the term under the category divided by the document count of
  the category (0 for a term never observed), and for a term never observed and
  \<open>w > 0\<close> the result equals \<open>a\<close>. Two inputs show that the code does otherwise.
  With \<open>w = 3\<close> and \<open>a\<close> the binary64 value nearest to \<open>0.1\<close>, the result for an
  unseen term is the next binary64 value above \<open>a\<close>: the product and the quotient are
  each rounded. And for the term \<open>a\<close>, observed under \<open>x\<close> only, and a category
  without documents, the code returns 0 where count divided by document count is
  \<open>0 / 0\<close>.
\<close>

theorem wordWeightProb_claim_counterexample:
  "round64 tenth = Fin tenth \<and>
   wordWeightProb fresh ''zz'' ''x'' 3 tenth = Fin (7205759403792795 / 72057594037927936) \<and>
   wordWeightProb fresh ''zz'' ''x'' 3 tenth \<noteq> Fin tenth \<and>
   wordProb trained_once ''a'' ''nocat'' = Fin 0 \<and>
   spec_raw trained_once ''a'' ''nocat'' = NaN"
proof -
  have r: "round64 tenth = Fin tenth"
    by (simp add: tenth_def float_eval)
  have u: "fmlookup (Words (data fresh)) ''zz'' = None" by code_simp
  have v: "wordWeightProb fresh ''zz'' ''x'' 3 tenth =
             Fin (7205759403792795 / 72057594037927936)"
    by (simp add: wordWeightProb_def wordProb_def wordTotal_unseen [OF u] u tenth_def float_eval)
  have w: "fmlookup (Words (data trained_once)) ''a'' = Some (fmupd ''x'' 1 fmempty)"
    by code_simp
  have p: "wordProb trained_once ''a'' ''nocat'' = Fin 0"
    by (simp add: wordProb_def w)
  have c: "count_of trained_once ''a'' ''nocat'' = 0"
    "lookup0 (Categorys (data trained_once)) ''nocat'' = 0"
    "''a'' |\<in>| fmdom (Words (data trained_once))"
    by code_simp+
  have s: "spec_raw trained_once ''a'' ''nocat'' = NaN"
    by (simp add: spec_raw_def c)
  show ?thesis
    using r v p s by (simp add: tenth_def)
qed

text \<open>
  Claim C1, amended. In every model, for every term, category, weight \<open>w\<close> and assumed
  probability \<open>a\<close>, \<open>wordWeightProb\<close> is the binary64 value of
  \<open>(w * a + total * basic) / (w + total)\<close>, each operation rounded, where \<open>total\<close> is
  the sum of the counts of the term over all its categories (0 for a term never
  observed) and \<open>basic\<close> is \<open>wordProb\<close>: the count of the term under the category
  divided by the document count of the category when a count is recorded there, and 0
  when none is (the term was never observed, or not under this category, whether or not
  the category has documents). For a term never observed and \<open>w > 0\<close>, with \<open>w\<close>
  and \<open>a\<close> zero or between \<open>2 ^ - 250\<close> and \<open>2 ^ 250\<close>, the result is within the
  relative distance \<open>2 ^ - 50\<close> of \<open>a\<close>.
\<close>

theorem wordWeightProb_formula:
  "wordWeightProb t word category w a =
     fdiv (fadd (fmul (Fin w) (Fin a))
                (fmul (Fin (\<Sum>c\<in>fset (fmdom (inner_of (Words (data t)) word)). count_of t word c))
                      (wordProb t word category)))
          (fadd (Fin w)
                (Fin (\<Sum>c\<in>fset (fmdom (inner_of (Words (data t)) word)). count_of t word c))) \<and>
   (\<forall>n. fmlookup (inner_of (Words (data t)) word) category = Some n \<longrightarrow>
      wordProb t word category =
        fdiv (Fin (count_of t word category)) (Fin (lookup0 (Categorys (data t)) category))) \<and>
   (fmlookup (inner_of (Words (data t)) word) category = None \<longrightarrow>
      wordProb t word category = Fin 0 \<and> count_of t word category = 0) \<and>
   (fmlookup (Words (data t)) word = None \<longrightarrow>
      wordProb t word category = Fin 0 \<and>
      (\<Sum>c\<in>fset (fmdom (inner_of (Words (data t)) word)). count_of t word c) = 0 \<and>
      (0 < w \<and> moderate w \<and> moderate a \<longrightarrow>
         (\<exists>r. wordWeightProb t word category w a = Fin r \<and>
              (1 - 1 / 2 ^ 50) * a \<le> r \<and> r \<le> (1 + 1 / 2 ^ 50) * a)))"
proof -
  have A: "wordWeightProb t word category w a =
     fdiv (fadd (fmul (Fin w) (Fin a)) (fmul (Fin (wordTotal t word)) (wordProb t word category)))
          (fadd (Fin w) (Fin (wordTotal t word)))"
    by (simp add: wordWeightProb_def Let_def)
  have B: "wordProb t word category = Fin 0" if "fmlookup (Words (data t)) word = None"
    using that by (simp add: wordProb_def)
  have C: "\<exists>r. wordWeightProb t word category w a = Fin r \<and>
              (1 - 1 / 2 ^ 50) * a \<le> r \<and> r \<le> (1 + 1 / 2 ^ 50) * a"
    if u: "fmlookup (Words (data t)) word = None" and w: "0 < w" "moderate w" "moderate a"
  proof -
    have z: "moderate 0" by (simp add: moderate_def)
    have "0 < w + 0" using w(1) by simp
    from weighted_approx [OF w(2,3) z z this] w(1) show ?thesis
      by (simp add: A B [OF u] wordTotal_unseen [OF u])
  qed
  have D: "wordProb t word category =
             fdiv (Fin (count_of t word category)) (Fin (lookup0 (Categorys (data t)) category))"
    if "fmlookup (inner_of (Words (data t)) word) category = Some n" for n
    using that
    by (auto simp: wordProb_def inner_of_def count_of_def lookup0_def split: option.splits)
  have E: "wordProb t word category = Fin 0 \<and> count_of t word category = 0"
    if "fmlookup (inner_of (Words (data t)) word) category = None"
    using that
    by (auto simp: wordProb_def inner_of_def count_of_def lookup0_def split: option.splits)
  show ?thesis
    using A B C D E by (simp add: wordTotal_sum [symmetric] wordTotal_unseen)
qed

theorem wordWeightProb_formula_witness:
  "fmlookup (Words (data fresh)) ''zz'' = None \<and> (0::real) < 3 \<and> moderate 3 \<and> moderate tenth \<and>
   (1 - 1 / 2 ^ 50) * tenth \<le> 7205759403792795 / 72057594037927936 \<and>
   7205759403792795 / 72057594037927936 \<le> (1 + 1 / 2 ^ 50) * tenth \<and>
   fmlookup (inner_of (Words (data trained_once)) ''a'') ''x'' = Some 1 \<and>
   wordProb trained_once ''a'' ''x'' = Fin 1 \<and>
   fmlookup (inner_of (Words (data trained_once)) ''a'') ''y'' = None \<and>
   wordProb trained_once ''a'' ''y'' = Fin 0"
proof -
  have h1: "fmlookup (Words (data fresh)) ''zz'' = None" by code_simp
  have h2: "fmlookup (inner_of (Words (data trained_once)) ''a'') ''x'' = Some 1" by code_simp
  have h3: "fmlookup (inner_of (Words (data trained_once)) ''a'') ''y'' = None" by code_simp
  have m: "moderate 3" "moderate tenth" by (simp_all add: moderate_def tenth_def)
  have v: "count_of trained_once ''a'' ''x'' = 1"
    "lookup0 (Categorys (data trained_once)) ''x'' = 1" by code_simp+
  have d: "fdiv (Fin 1) (Fin 1) = Fin 1" by (simp add: float_eval)
  have val: "wordWeightProb fresh ''zz'' ''x'' 3 tenth =
               Fin (7205759403792795 / 72057594037927936)"
    by (simp add: wordWeightProb_def wordProb_def wordTotal_unseen [OF h1] h1 tenth_def
        float_eval)
  have pos: "(0::real) < 3" by simp
  have "\<exists>r. wordWeightProb fresh ''zz'' ''x'' 3 tenth = Fin r \<and>
           (1 - 1 / 2 ^ 50) * tenth \<le> r \<and> r \<le> (1 + 1 / 2 ^ 50) * tenth"
    using wordWeightProb_formula [of fresh "''zz''" "''x''" 3 tenth] h1 m pos by blast
  then obtain r where r: "wordWeightProb fresh ''zz'' ''x'' 3 tenth = Fin r"
    "(1 - 1 / 2 ^ 50) * tenth \<le> r" "r \<le> (1 + 1 / 2 ^ 50) * tenth"
    by blast
  from r(1) val have "r = 7205759403792795 / 72057594037927936" by simp
  with r(2,3) have near: "(1 - 1 / 2 ^ 50) * tenth \<le> 7205759403792795 / 72057594037927936"
    "7205759403792795 / 72057594037927936 \<le> (1 + 1 / 2 ^ 50) * tenth"
    by simp_all
  have px: "wordProb trained_once ''a'' ''x'' = Fin 1"
    using wordWeightProb_formula [of trained_once "''a''" "''x''" 1 "1/2"] h2 v d by simp
  have py: "wordProb trained_once ''a'' ''y'' = Fin 0"
    using wordWeightProb_formula [of trained_once "''a''" "''y''" 1 "1/2"] h3 by simp
  show ?thesis
    using h1 pos m near h2 px h3 py by blast
qed

subsection \<open>Between the assumed and the raw probability\<close>

text \<open>
  The claim reads: for every weight \<open>w \<ge> 0\<close> the estimate lies between the smaller and
  the larger of \<open>a\<close> and the raw probability. With weight 0 the estimate of a term never
  observed is \<open>0 / 0\<close>, which is NaN and lies in no interval: here in a model trained
  once, for the unseen term \<open>zz\<close>, the category \<open>x\<close> and the assumed probability
  \<open>1/2\<close>. And after five documents with the term \<open>a\<close> among eleven under \<open>x\<close>,
  with weight 0, the estimate for \<open>a\<close> is the binary64 value just below the raw
  probability, by the rounding of the product and of the quotient.
\<close>

theorem wordWeightProb_interval_counterexample:
  "wordWeightProb trained_once ''zz'' ''x'' 0 (1/2) = NaN \<and>
   \<not> between (fmin (Fin (1/2)) (wordProb trained_once ''zz'' ''x''))
             (fmax (Fin (1/2)) (wordProb trained_once ''zz'' ''x''))
             (wordWeightProb trained_once ''zz'' ''x'' 0 (1/2)) \<and>
   wordProb five_of_eleven ''a'' ''x'' = Fin (8188362958855447 / 18014398509481984) \<and>
   wordWeightProb five_of_eleven ''a'' ''x'' 0 (1/2) =
     Fin (8188362958855446 / 18014398509481984) \<and>
   \<not> between (fmin (Fin (1/2)) (wordProb five_of_eleven ''a'' ''x''))
             (fmax (Fin (1/2)) (wordProb five_of_eleven ''a'' ''x''))
             (wordWeightProb five_of_eleven ''a'' ''x'' 0 (1/2))"
proof -
  have u: "fmlookup (Words (data trained_once)) ''zz'' = None" by code_simp
  have p1: "wordProb trained_once ''zz'' ''x'' = Fin 0"
    by (simp add: wordProb_def u)
  have v1: "wordWeightProb trained_once ''zz'' ''x'' 0 (1/2) = NaN"
    by (simp add: wordWeightProb_def p1 wordTotal_unseen [OF u] float_eval)
  have w: "fmlookup (Words (data five_of_eleven)) ''a'' = Some (fmupd ''x'' 5 fmempty)"
    "lookup0 (Categorys (data five_of_eleven)) ''x'' = 11"
    "wordTotal five_of_eleven ''a'' = 5"
    by code_simp+
  have p2: "wordProb five_of_eleven ''a'' ''x'' = Fin (8188362958855447 / 18014398509481984)"
    by (simp add: wordProb_def w float_eval)
  have v2: "wordWeightProb five_of_eleven ''a'' ''x'' 0 (1/2) =
              Fin (8188362958855446 / 18014398509481984)"
    by (simp add: wordWeightProb_def p2 w float_eval)
  show ?thesis
    by (simp add: p1 v1 p2 v2 between_def fmin_def fmax_def)
qed

lemma convex_between:
  fixes a b w T :: real
  assumes "0 \<le> w" "0 \<le> T" "0 < w + T"
  shows "min a b \<le> (w * a + T * b) / (w + T) \<and> (w * a + T * b) / (w + T) \<le> max a b"
proof -
  have "w * min a b \<le> w * a" "T * min a b \<le> T * b" "w * a \<le> w * max a b"
    "T * b \<le> T * max a b"
    using assms by (simp_all add: mult_left_mono)
  then have "(w + T) * min a b \<le> w * a + T * b" "w * a + T * b \<le> (w + T) * max a b"
    by (simp_all add: algebra_simps)
  then show ?thesis
    using assms(3) by (simp add: pos_le_divide_eq pos_divide_le_eq mult.commute)
qed

text \<open>
  Claim C4, amended. When the weight \<open>w\<close>, the assumed probability \<open>a\<close>, the summed
  counts of the term and the raw probability \<open>wordProb\<close> are each zero or between
  \<open>2 ^ - 250\<close> and \<open>2 ^ 250\<close>, and \<open>w\<close> plus the summed counts is positive,
  \<open>wordWeightProb\<close> is a finite number between the smaller of \<open>a\<close> and the raw
  probability, lowered by the relative amount \<open>2 ^ - 50\<close>, and the larger of the two,
  raised by the same relative amount: it leaves the span between the two by rounding
  only.
\<close>

theorem wordWeightProb_between:
  assumes "moderate w" and "moderate a" and "moderate (wordTotal t word)"
    and "wordProb t word category = Fin b" and "moderate b"
    and "0 < w + wordTotal t word"
  shows "\<exists>r. wordWeightProb t word category w a = Fin r \<and>
             (1 - 1 / 2 ^ 50) * min a b \<le> r \<and> r \<le> (1 + 1 / 2 ^ 50) * max a b"
proof -
  define T where "T = wordTotal t word"
  have val: "wordWeightProb t word category w a =
               fdiv (fadd (fmul (Fin w) (Fin a)) (fmul (Fin T) (Fin b))) (fadd (Fin w) (Fin T))"
    by (simp add: wordWeightProb_def Let_def assms(4) T_def)
  from weighted_approx [OF assms(1,2) assms(3) [folded T_def] assms(5) assms(6) [folded T_def]]
  obtain r where r: "fdiv (fadd (fmul (Fin w) (Fin a)) (fmul (Fin T) (Fin b)))
                          (fadd (Fin w) (Fin T)) = Fin r"
    "(1 - 1 / 2 ^ 50) * ((w * a + T * b) / (w + T)) \<le> r"
    "r \<le> (1 + 1 / 2 ^ 50) * ((w * a + T * b) / (w + T))"
    by blast
  have c: "min a b \<le> (w * a + T * b) / (w + T)" "(w * a + T * b) / (w + T) \<le> max a b"
    using convex_between [of w T a b] moderate_nonneg [OF assms(1)]
      moderate_nonneg [OF assms(3)] assms(6)
    by (simp_all add: T_def)
  have "(1 - 1 / 2 ^ 50) * min a b \<le> (1 - 1 / 2 ^ 50) * ((w * a + T * b) / (w + T))"
    using c(1) by (intro mult_left_mono) simp_all
  moreover have "(1 + 1 / 2 ^ 50) * ((w * a + T * b) / (w + T)) \<le> (1 + 1 / 2 ^ 50) * max a b"
    using c(2) by (intro mult_left_mono) simp_all
  ultimately have "(1 - 1 / 2 ^ 50) * min a b \<le> r" "r \<le> (1 + 1 / 2 ^ 50) * max a b"
    using r(2,3) by linarith+
  with val r(1) show ?thesis by simp
qed

theorem wordWeightProb_between_witness:
  "moderate 1 \<and> moderate (1/2) \<and> moderate (wordTotal trained_once ''a'') \<and>
   wordProb trained_once ''a'' ''x'' = Fin 1 \<and> 0 < 1 + wordTotal trained_once ''a'' \<and>
   wordWeightProb trained_once ''a'' ''x'' 1 (1/2) = Fin (3/4) \<and>
   (1 - 1 / 2 ^ 50) * min (1/2) 1 \<le> (3/4 :: real) \<and> (3/4 :: real) \<le> (1 + 1 / 2 ^ 50) * max (1/2) 1"
proof -
  have T: "wordTotal trained_once ''a'' = 1" by code_simp
  have w: "fmlookup (Words (data trained_once)) ''a'' = Some (fmupd ''x'' 1 fmempty)"
    "lookup0 (Categorys (data trained_once)) ''x'' = 1"
    by code_simp+
  have m: "moderate 1" "moderate (1/2)" "moderate (wordTotal trained_once ''a'')"
    by (simp_all add: moderate_def T)
  have p: "wordProb trained_once ''a'' ''x'' = Fin 1"
    by (simp add: wordProb_def w float_eval)
  have pos: "0 < 1 + wordTotal trained_once ''a''" by (simp add: T)
  have val: "wordWeightProb trained_once ''a'' ''x'' 1 (1/2) = Fin (3/4)"
    by (simp add: wordWeightProb_def p T float_eval)
  from wordWeightProb_between [OF m(1,2,3) p m(1) pos]
  obtain r where r: "wordWeightProb trained_once ''a'' ''x'' 1 (1/2) = Fin r"
    "(1 - 1 / 2 ^ 50) * min (1/2) 1 \<le> r" "r \<le> (1 + 1 / 2 ^ 50) * max (1/2) 1"
    by blast
  from r(1) val have "r = 3/4" by simp
  with r(2,3) have near: "(1 - 1 / 2 ^ 50) * min (1/2) 1 \<le> (3/4 :: real)"
    "(3/4 :: real) \<le> (1 + 1 / 2 ^ 50) * max (1/2) 1"
    by simp_all
  show ?thesis
    using m p pos val near by blast
qed

section \<open>Scoring and categorizing\<close>

subsection \<open>The ranking does not depend on the order of the range\<close>

lemma fold_Append:
  "fold (\<lambda>c scores. Append scores c (f c)) ks acc = acc @ map (\<lambda>c. (c, f c)) ks"
  by (induction ks arbitrary: acc) (simp_all add: Append_def)

lemma visits_mset: "visits ks m \<Longrightarrow> mset ks = mset (keys_of m)"
proof -
  assume "visits ks m"
  then have "distinct ks" "set ks = set (keys_of m)" "distinct (keys_of m)"
    using visits_keys_of [of m] by (simp_all add: visits_def)
  then show ?thesis by (simp only: set_eq_iff_mset_eq_distinct)
qed

lemma ranked_any_order:
  assumes "visits ks m"
  shows "ranked (map (\<lambda>c. (c, f c)) ks) = ranked (map (\<lambda>c. (c, f c)) (keys_of m))"
  unfolding ranked_def
proof (rule sort_key_eq_sort_key)
  show "mset (map (\<lambda>c. (c, f c)) ks) = mset (map (\<lambda>c. (c, f c)) (keys_of m))"
    using visits_mset [OF assms] by simp
  show "inj_on item_key (set (map (\<lambda>c. (c, f c)) ks))"
    by (auto simp: inj_on_def item_key_def)
qed

lemma Top_fold_Append:
  assumes "visits ks m"
  shows "Top n (fold (\<lambda>c scores. Append scores c (f c)) ks NewScores) =
           take n (ranked (map (\<lambda>c. (c, f c)) (keys_of m)))"
  using ranked_any_order [OF assms, of f]
  by (simp add: Top_def fold_Append NewScores_def ranked_def)

lemma distinct_fst_sort_key:
  assumes "distinct (map fst xs)"
  shows "distinct (map fst (sort_key k xs))"
proof -
  have "mset (map fst (sort_key k xs)) = mset (map fst xs)" by simp
  then show ?thesis using assms mset_eq_imp_distinct_iff by blast
qed

lemma ranked_descending:
  assumes "distinct ks" and r: "r = take n (ranked (map (\<lambda>c. (c, f c)) ks))"
    and "i < j" and "j < length r" and "snd (r ! i) = Fin x" and "snd (r ! j) = Fin y"
  shows "y < x \<or> (x = y \<and> fst (r ! i) < fst (r ! j))"
proof -
  have "sorted (map item_key (ranked (map (\<lambda>c. (c, f c)) ks)))"
    by (simp add: ranked_def)
  then have "sorted (take n (map item_key (ranked (map (\<lambda>c. (c, f c)) ks))))"
    by (rule sorted_wrt_take)
  then have so: "sorted (map item_key r)" by (simp add: r take_map)
  have "distinct (map fst (map (\<lambda>c. (c, f c)) ks))"
    using assms(1) by (simp add: comp_def)
  then have "distinct (map fst (ranked (map (\<lambda>c. (c, f c)) ks)))"
    unfolding ranked_def by (rule distinct_fst_sort_key)
  then have "distinct (take n (map fst (ranked (map (\<lambda>c. (c, f c)) ks))))"
    by (rule distinct_take)
  then have di: "distinct (map fst r)" by (simp add: r take_map)
  from so assms(3,4) have "item_key (r ! i) \<le> item_key (r ! j)"
    using sorted_nth_mono [of "map item_key r" i j] by simp
  moreover from di assms(3,4) have "fst (r ! i) \<noteq> fst (r ! j)"
    using nth_eq_iff_index_eq [of "map fst r" i j] by simp
  ultimately show ?thesis
    using assms(5,6) by (cases "r ! i"; cases "r ! j") (auto simp: item_key_def)
qed

subsection \<open>Score\<close>

text \<open>
  Claim C5. For a term that is a key of the word table, and whatever the order in which
  the range visits the categories recorded for it, \<open>Score\<close> without a category returns
  the first 10 of the items (category, weighted probability of the term under the
  category), one per recorded category, ranked by descending probability; of two
  returned items with finite scores the earlier has the larger probability or, when the
  probabilities are equal, the smaller category name.
\<close>

theorem Score_all_categories:
  assumes "fmlookup (Words (data t)) word = Some inner" and "visits ks inner"
  shows "Score ks t word [] =
           take 10 (ranked (map (\<lambda>c. (c, wordWeightProb t word c (defaultWeight t)
                                             (defaultProb t)))
                               (keys_of inner))) \<and>
         (\<forall>i j x y. i < j \<and> j < length (Score ks t word []) \<and>
              snd (Score ks t word [] ! i) = Fin x \<and> snd (Score ks t word [] ! j) = Fin y \<longrightarrow>
              y < x \<or> (x = y \<and> fst (Score ks t word [] ! i) < fst (Score ks t word [] ! j)))"
proof -
  have eq: "Score ks t word [] =
           take 10 (ranked (map (\<lambda>c. (c, wordWeightProb t word c (defaultWeight t)
                                             (defaultProb t)))
                               (keys_of inner)))"
    using assms by (simp add: Score_def Top_fold_Append)
  have d: "distinct (keys_of inner)" by (simp add: keys_of_def)
  show ?thesis
  proof (intro conjI allI impI)
    show "Score ks t word [] =
           take 10 (ranked (map (\<lambda>c. (c, wordWeightProb t word c (defaultWeight t)
                                             (defaultProb t)))
                               (keys_of inner)))"
      by (rule eq)
  next
    fix i j x y
    assume "i < j \<and> j < length (Score ks t word []) \<and>
              snd (Score ks t word [] ! i) = Fin x \<and> snd (Score ks t word [] ! j) = Fin y"
    then show "y < x \<or> (x = y \<and> fst (Score ks t word [] ! i) < fst (Score ks t word [] ! j))"
      using ranked_descending [OF d eq, of i j x y] by simp
  qed
qed

text \<open>
  Two categories with the same probability, visited as \<open>y\<close> then \<open>x\<close>: \<open>x\<close> comes first.
\<close>

theorem Score_all_categories_witness:
  "fmlookup (Words (data two_categories)) ''a'' = Some (fmupd ''x'' 1 (fmupd ''y'' 1 fmempty)) \<and>
   visits [''y'', ''x''] (fmupd ''x'' 1 (fmupd ''y'' (1::real) fmempty)) \<and>
   Score [''y'', ''x''] two_categories ''a'' [] =
     [(''x'', Fin (7505999378950827 / 9007199254740992)),
      (''y'', Fin (7505999378950827 / 9007199254740992))]"
proof -
  have a: "fmlookup (Words (data two_categories)) ''a'' =
             Some (fmupd ''x'' 1 (fmupd ''y'' 1 fmempty))"
    by code_simp
  have b: "visits [''y'', ''x''] (fmupd ''x'' 1 (fmupd ''y'' (1::real) fmempty))"
    by (auto simp: visits_def)
  have s: "wordTotal two_categories ''a'' = 2"
    "lookup0 (Categorys (data two_categories)) ''x'' = 1"
    "lookup0 (Categorys (data two_categories)) ''y'' = 1"
    "defaultWeight two_categories = 1" "defaultProb two_categories = 1/2"
    by code_simp+
  have p: "wordProb two_categories ''a'' ''x'' = Fin 1" "wordProb two_categories ''a'' ''y'' = Fin 1"
    by (simp_all add: wordProb_def a s float_eval)
  have v: "wordWeightProb two_categories ''a'' c 1 (1/2) =
             Fin (7505999378950827 / 9007199254740992)" if "c = ''x'' \<or> c = ''y''" for c
    using that by (auto simp: wordWeightProb_def p s float_eval)
  have k: "keys_of (fmupd ''x'' 1 (fmupd ''y'' (1::real) fmempty)) = [''x'', ''y'']"
    by code_simp
  have r: "take 10 (ranked [(''x'', Fin (7505999378950827 / 9007199254740992)),
                            (''y'', Fin (7505999378950827 / 9007199254740992))])
           = [(''x'', Fin (7505999378950827 / 9007199254740992)),
              (''y'', Fin (7505999378950827 / 9007199254740992))]"
    by code_simp
  show ?thesis
    using Score_all_categories [OF a b] a b by (simp add: k s v r)
qed

text \<open>
  Claim C6. For a term that is not a key of the word table, \<open>Score\<close> returns the empty
  list, whatever the category argument (given or empty).
\<close>

theorem Score_unseen_empty:
  assumes "word |\<notin>| fmdom (Words (data t))"
  shows "Score ks t word category = []"
  using assms by (simp add: Score_def GetSlice_def NewScores_def fmdom_notD)

theorem Score_unseen_empty_witness:
  "''zz'' |\<notin>| fmdom (Words (data two_categories)) \<and>
   Score [] two_categories ''zz'' [] = [] \<and> Score [] two_categories ''zz'' ''x'' = []"
proof -
  have a: "''zz'' |\<notin>| fmdom (Words (data two_categories))" by code_simp
  show ?thesis
    using Score_unseen_empty [OF a, of "[]" "[]"] Score_unseen_empty [OF a, of "[]" "''x''"] a
    by simp
qed

subsection \<open>Categorize\<close>

lemma fold_product:
  "fold (\<lambda>x p. fmul p (g x)) xs acc = foldl fmul acc (map g xs)"
  by (induction xs arbitrary: acc) simp_all

lemma docProb_product:
  "docProb t doc category =
     product_of (map (\<lambda>word. wordWeightProb t word category (defaultWeight t) (defaultProb t))
                     (Segment t doc))"
  by (simp add: docProb_def product_of_def fold_product)

text \<open>
  Claim C2. Whatever the order in which the range visits the categories of the category
  table, \<open>Categorize\<close> returns the first 10 of the items (category, score), one per
  category of the table, ranked by descending score, where the score of a category is
  the product over all tokens of the document (in order, repetitions included) of their
  weighted probabilities under the category with the default weight and probability,
  times the document count of the category, divided by the sum of all document counts.
\<close>

theorem Categorize_posterior:
  assumes "visits ks (Categorys (data t))"
  shows "Categorize ks t doc =
           take 10 (ranked (map (\<lambda>c. (c, spec_posterior t doc c)) (keys_of (Categorys (data t))))) \<and>
         (\<forall>i j x y. i < j \<and> j < length (Categorize ks t doc) \<and>
              snd (Categorize ks t doc ! i) = Fin x \<and> snd (Categorize ks t doc ! j) = Fin y \<longrightarrow>
              y < x \<or> (x = y \<and> fst (Categorize ks t doc ! i) < fst (Categorize ks t doc ! j)))"
proof -
  have tot: "categoryNumTotal t =
               (\<Sum>c\<in>fset (fmdom (Categorys (data t))). lookup0 (Categorys (data t)) c)"
    by (simp add: categoryNumTotal_def range_total_any_order [OF visits_keys_of])
  have eq: "Categorize ks t doc =
           take 10 (ranked (map (\<lambda>c. (c, spec_posterior t doc c)) (keys_of (Categorys (data t)))))"
    using Top_fold_Append [OF assms, of 10 "spec_posterior t doc"]
    by (simp add: Categorize_def Let_def spec_posterior_def docProb_product tot)
  have d: "distinct (keys_of (Categorys (data t)))" by (simp add: keys_of_def)
  show ?thesis
  proof (intro conjI allI impI)
    show "Categorize ks t doc =
           take 10 (ranked (map (\<lambda>c. (c, spec_posterior t doc c)) (keys_of (Categorys (data t)))))"
      by (rule eq)
  next
    fix i j x y
    assume "i < j \<and> j < length (Categorize ks t doc) \<and>
              snd (Categorize ks t doc ! i) = Fin x \<and> snd (Categorize ks t doc ! j) = Fin y"
    then show "y < x \<or> (x = y \<and> fst (Categorize ks t doc ! i) < fst (Categorize ks t doc ! j))"
      using ranked_descending [OF d eq, of i j x y] by simp
  qed
qed

text \<open>
  The scenario of the specification: after one spam and one ham document,
  \<open>buy pills\<close> ranks spam above ham.
\<close>

theorem Categorize_posterior_witness:
  "visits [''spam'', ''ham''] (Categorys (data spam_ham)) \<and>
   Categorize [''spam'', ''ham''] spam_ham ''buy pills'' =
     [(''spam'', Fin (9/32)), (''ham'', Fin (1/32))] \<and>
   spec_posterior spam_ham ''buy pills'' ''spam'' = Fin (9/32)"
proof -
  have c: "Categorys (data spam_ham) = fmupd ''ham'' 1 (fmupd ''spam'' 1 fmempty)"
    by code_simp
  have a: "visits [''spam'', ''ham''] (Categorys (data spam_ham))"
    by (auto simp: visits_def c)
  have w: "fmlookup (Words (data spam_ham)) ''buy'' = Some (fmupd ''spam'' 1 fmempty)"
    "fmlookup (Words (data spam_ham)) ''pills'' = Some (fmupd ''spam'' 1 fmempty)"
    by code_simp+
  have s: "wordTotal spam_ham ''buy'' = 1" "wordTotal spam_ham ''pills'' = 1"
    "defaultWeight spam_ham = 1" "defaultProb spam_ham = 1/2"
    "Segment spam_ham ''buy pills'' = [''buy'', ''pills'']"
    "(\<Sum>c\<in>fset (fmdom (Categorys (data spam_ham))). lookup0 (Categorys (data spam_ham)) c) = 2"
    by code_simp+
  have l: "lookup0 (Categorys (data spam_ham)) ''spam'' = 1"
    "lookup0 (Categorys (data spam_ham)) ''ham'' = 1"
    by (simp_all add: c lookup0_def)
  have p: "wordProb spam_ham ''buy'' ''spam'' = Fin 1" "wordProb spam_ham ''pills'' ''spam'' = Fin 1"
    "wordProb spam_ham ''buy'' ''ham'' = Fin 0" "wordProb spam_ham ''pills'' ''ham'' = Fin 0"
    by (simp_all add: wordProb_def w l float_eval)
  have v: "wordWeightProb spam_ham ''buy'' ''spam'' 1 (1/2) = Fin (3/4)"
    "wordWeightProb spam_ham ''pills'' ''spam'' 1 (1/2) = Fin (3/4)"
    "wordWeightProb spam_ham ''buy'' ''ham'' 1 (1/2) = Fin (1/4)"
    "wordWeightProb spam_ham ''pills'' ''ham'' 1 (1/2) = Fin (1/4)"
    by (simp_all add: wordWeightProb_def p s float_eval)
  have d: "spec_posterior spam_ham ''buy pills'' ''spam'' = Fin (9/32)"
    "spec_posterior spam_ham ''buy pills'' ''ham'' = Fin (1/32)"
    by (simp_all add: spec_posterior_def product_of_def s l v float_eval)
  have k: "keys_of (Categorys (data spam_ham)) = [''ham'', ''spam'']"
    by code_simp
  have r: "take 10 (ranked [(''ham'', Fin (1/32)), (''spam'', Fin (9/32))])
         = [(''spam'', Fin (9/32)), (''ham'', Fin (1/32))]"
    by code_simp
  show ?thesis
    using Categorize_posterior [OF a, of "''buy pills''"] a by (simp add: k d r)
qed

text \<open>
  Claim C7. On a model whose category table is empty, \<open>Categorize\<close> returns the empty
  list for every document: the range visits no category, so no score is computed and the
  zero total is never a divisor.
\<close>

theorem Categorize_untrained_empty:
  assumes "Categorys (data t) = fmempty" and "visits ks (Categorys (data t))"
  shows "Categorize ks t doc = []"
  using assms by (simp add: Categorize_def visits_def Top_def NewScores_def)

theorem Categorize_untrained_empty_witness:
  "Categorys (data fresh) = fmempty \<and> visits [] (Categorys (data fresh)) \<and>
   Categorize [] fresh ''anything'' = []"
proof -
  have a: "Categorys (data fresh) = fmempty"
    by (simp add: fresh_def NewClassifier_def empty_data_def)
  have b: "visits [] (Categorys (data fresh))" by (simp add: a visits_def)
  show ?thesis using Categorize_untrained_empty [OF a b, of "''anything''"] a b by simp
qed

end
